theory Spec2Isabelle
  imports Main "HOL-Library.Word"
begin

unbundle bit_operations_syntax

section \<open>The packet buffer of gdns.go\<close>

text \<open>
  The embedding follows \<^verbatim>\<open>src/gdns.go\<close>. A Go \<^verbatim>\<open>byte\<close> is an 8-bit word, a
  \<^verbatim>\<open>uint16\<close> a 16-bit word, a \<^verbatim>\<open>uint32\<close> a 32-bit word. A Go \<^verbatim>\<open>int\<close> is modelled as
  an \<open>int\<close>; the only additions that can leave the 64-bit range (in \<^verbatim>\<open>Step\<close> and in
  \<^verbatim>\<open>GetRange\<close>) have the two's complement wrap-around written out.

  Every method that can fail returns \<open>error + 'a\<close>. The two errors the source builds
  with \<^verbatim>\<open>fmt.Errorf\<close> are \<open>BufferOverrun\<close> (its "end of buffer") and
  \<open>CompressionLoopLimit\<close> (its "limit of 5 jumps exceeded"). \<open>IndexOutOfRange\<close> is the
  run-time panic Go raises when an array is indexed or sliced outside its bounds; it is
  not an error value of the program, it aborts it.

  The receiver of every method is a pointer, so a method that moves the cursor returns
  the buffer next to its result, on failure as well as on success.
\<close>

type_synonym byte = "8 word"
type_synonym uint16 = "16 word"
type_synonym uint32 = "32 word"

datatype error = BufferOverrun | CompressionLoopLimit | IndexOutOfRange

record BytePacketBuffer =
  buf :: "byte list"
  pos :: int

text \<open>The array \<^verbatim>\<open>[512]byte\<close> always has 512 cells.\<close>

definition wf_buffer :: "BytePacketBuffer \<Rightarrow> bool" where
  "wf_buffer b = (length (buf b) = 512)"

definition NewBytePacketBuffer :: BytePacketBuffer where
  "NewBytePacketBuffer = \<lparr>buf = replicate 512 0, pos = 0\<rparr>"

definition wrap_int :: "int \<Rightarrow> int" where
  "wrap_int x = (x + 2 ^ 63) mod 2 ^ 64 - 2 ^ 63"

text \<open>\<^verbatim>\<open>b.buf[i]\<close>: Go checks the index against the array's length and panics outside it.\<close>

definition index_buf :: "BytePacketBuffer \<Rightarrow> int \<Rightarrow> error + byte" where
  "index_buf b i = (if 0 \<le> i \<and> i < 512 then Inr (buf b ! nat i) else Inl IndexOutOfRange)"

text \<open>
  \<^verbatim>\<open>b.buf[lo:hi]\<close>: Go panics unless \<open>0 \<le> lo \<le> hi \<le> 512\<close>.
\<close>

definition slice_buf :: "BytePacketBuffer \<Rightarrow> int \<Rightarrow> int \<Rightarrow> error + byte list" where
  "slice_buf b lo hi =
     (if 0 \<le> lo \<and> lo \<le> hi \<and> hi \<le> 512
      then Inr (take (nat (hi - lo)) (drop (nat lo) (buf b)))
      else Inl IndexOutOfRange)"

definition Pos :: "BytePacketBuffer \<Rightarrow> int" where
  "Pos b = pos b"

definition Step :: "BytePacketBuffer \<Rightarrow> int \<Rightarrow> (error + unit) \<times> BytePacketBuffer" where
  "Step b steps = (Inr (), b\<lparr>pos := wrap_int (pos b + steps)\<rparr>)"

definition Seek :: "BytePacketBuffer \<Rightarrow> int \<Rightarrow> (error + unit) \<times> BytePacketBuffer" where
  "Seek b p = (Inr (), b\<lparr>pos := p\<rparr>)"

definition Read :: "BytePacketBuffer \<Rightarrow> (error + byte) \<times> BytePacketBuffer" where
  "Read b =
     (if pos b \<ge> 512 then (Inl BufferOverrun, b)
      else case index_buf b (pos b) of
             Inl e \<Rightarrow> (Inl e, b)
           | Inr res \<Rightarrow> (Inr res, b\<lparr>pos := pos b + 1\<rparr>))"

text \<open>\<^verbatim>\<open>Get\<close> and \<^verbatim>\<open>GetRange\<close> leave the buffer as it is, so they return the result only.\<close>

definition Get :: "BytePacketBuffer \<Rightarrow> int \<Rightarrow> error + byte" where
  "Get b p = (if pos b \<ge> 512 then Inl BufferOverrun else index_buf b p)"

definition GetRange :: "BytePacketBuffer \<Rightarrow> int \<Rightarrow> int \<Rightarrow> error + byte list" where
  "GetRange b start len =
     (if wrap_int (start + len) \<ge> 512 then Inl BufferOverrun
      else slice_buf b start (wrap_int (start + len)))"

definition ReadU16 :: "BytePacketBuffer \<Rightarrow> (error + uint16) \<times> BytePacketBuffer" where
  "ReadU16 b =
     (case Read b of
        (Inl e, b1) \<Rightarrow> (Inl e, b1)
      | (Inr high, b1) \<Rightarrow>
          (case Read b1 of
             (Inl e, b2) \<Rightarrow> (Inl e, b2)
           | (Inr low, b2) \<Rightarrow> (Inr (push_bit 8 (ucast high) OR ucast low), b2)))"

type_synonym QueryType = uint16

definition ReadU16_Query :: "BytePacketBuffer \<Rightarrow> (error + QueryType) \<times> BytePacketBuffer" where
  "ReadU16_Query b =
     (case Read b of
        (Inl e, b1) \<Rightarrow> (Inl e, b1)
      | (Inr high, b1) \<Rightarrow>
          (case Read b1 of
             (Inl e, b2) \<Rightarrow> (Inl e, b2)
           | (Inr low, b2) \<Rightarrow> (Inr (push_bit 8 (ucast high) OR ucast low), b2)))"

definition ReadU32 :: "BytePacketBuffer \<Rightarrow> (error + uint32) \<times> BytePacketBuffer" where
  "ReadU32 b =
     (case Read b of
        (Inl e, b1) \<Rightarrow> (Inl e, b1)
      | (Inr b1v, b1) \<Rightarrow>
          (case Read b1 of
             (Inl e, b2) \<Rightarrow> (Inl e, b2)
           | (Inr b2v, b2) \<Rightarrow>
               (case Read b2 of
                  (Inl e, b3) \<Rightarrow> (Inl e, b3)
                | (Inr b3v, b3) \<Rightarrow>
                    (case Read b3 of
                       (Inl e, b4) \<Rightarrow> (Inl e, b4)
                     | (Inr b4v, b4) \<Rightarrow>
                         (Inr (push_bit 24 (ucast b1v) OR push_bit 16 (ucast b2v)
                               OR push_bit 8 (ucast b3v) OR ucast b4v), b4)))))"

section \<open>Name decoding\<close>

text \<open>
  The local variables of \<^verbatim>\<open>Read_qname\<close>, with the buffer and the string behind
  \<^verbatim>\<open>outstr\<close>, are the state of its loop. A Go string is a sequence of bytes and
  \<^verbatim>\<open>string(rangeBytes)\<close> takes the bytes as they are; \<open>byte_char\<close> is that conversion.
\<close>

definition byte_char :: "byte \<Rightarrow> char" where
  "byte_char w = char_of (unat w)"

record qname_state =
  qbuf :: BytePacketBuffer
  qpos :: int
  delim :: string
  jumped :: bool
  jumpsPerformed :: int
  outstr :: string

definition maxJumps :: int where
  "maxJumps = 5"

text \<open>
  The right-hand side of line 140, \<^verbatim>\<open>int(((uint16(len) ^ 0xC0) << 8) | uint16(offset))\<close>:
  the offset a compression pointer with the octets \<open>len\<close> and \<open>offset\<close> jumps to.
\<close>

definition pointer_offset :: "byte \<Rightarrow> byte \<Rightarrow> int" where
  "pointer_offset len offset = uint (push_bit 8 (ucast len XOR 0xC0) OR ucast offset :: uint16)"

text \<open>
  One pass through the body of the \<^verbatim>\<open>for\<close> loop: \<open>Continue\<close> goes round again,
  \<open>Return\<close> is a \<^verbatim>\<open>return err\<close> from inside the loop, \<open>Break\<close> is the \<^verbatim>\<open>break\<close>.
\<close>

datatype qname_step = Continue qname_state | Return error qname_state | Break qname_state

definition qname_body :: "qname_state \<Rightarrow> qname_step" where
  "qname_body s =
     (if jumpsPerformed s > maxJumps then Return CompressionLoopLimit s
      else case Get (qbuf s) (qpos s) of
        Inl e \<Rightarrow> Return e s
      | Inr len \<Rightarrow>
          if len AND 0xC0 = 0xC0 then
            (let s1 = (if \<not> jumped s then s\<lparr>qbuf := snd (Seek (qbuf s) (qpos s + 2))\<rparr> else s)
             in case Get (qbuf s1) (qpos s1 + 1) of
                  Inl e \<Rightarrow> Return e s1
                | Inr offset \<Rightarrow>
                    Continue (s1\<lparr>qpos := pointer_offset len offset,
                                 jumped := True,
                                 jumpsPerformed := jumpsPerformed s1 + 1\<rparr>))
          else
            (let s1 = s\<lparr>qpos := qpos s + 1\<rparr>
             in if len = 0 then Break s1
                else
                  (let s2 = s1\<lparr>outstr := outstr s1 @ delim s1\<rparr>
                   in case GetRange (qbuf s2) (qpos s2) (uint len) of
                        Inl e \<Rightarrow> Return e s2
                      | Inr rangeBytes \<Rightarrow>
                          Continue (s2\<lparr>outstr := outstr s2 @ map byte_char rangeBytes,
                                       delim := ''.'',
                                       qpos := qpos s2 + uint len\<rparr>))))"

partial_function (option) qname_loop :: "qname_state \<Rightarrow> ((error + unit) \<times> qname_state) option" where
  "qname_loop s =
     (case qname_body s of
        Continue s' \<Rightarrow> qname_loop s'
      | Return e s' \<Rightarrow> Some (Inl e, s')
      | Break s' \<Rightarrow> Some (Inr (), s'))"

definition Read_qname ::
  "BytePacketBuffer \<Rightarrow> string \<Rightarrow> ((error + unit) \<times> BytePacketBuffer \<times> string) option" where
  "Read_qname b out =
     (case qname_loop \<lparr>qbuf = b, qpos = Pos b, delim = '''', jumped = False,
                       jumpsPerformed = 0, outstr = out\<rparr> of
        None \<Rightarrow> None
      | Some (Inl e, s) \<Rightarrow> Some (Inl e, qbuf s, outstr s)
      | Some (Inr u, s) \<Rightarrow>
          Some (Inr (), if \<not> jumped s then snd (Seek (qbuf s) (qpos s)) else qbuf s, outstr s))"

declare qname_loop.simps [code]

section \<open>Header, question and record decoding\<close>

datatype ResultCode = NOERROR | FORMERR | SERVFAIL | NXDOMAIN | NOTIMP | REFUSED

definition ResultCodeFromNum :: "byte \<Rightarrow> ResultCode" where
  "ResultCodeFromNum num =
     (if num = 1 then FORMERR
      else if num = 2 then SERVFAIL
      else if num = 3 then NXDOMAIN
      else if num = 4 then NOTIMP
      else if num = 5 then REFUSED
      else NOERROR)"

record DnsHeader =
  ID :: uint16
  RecursionDesired :: bool
  TruncatedMessage :: bool
  AuthoritativeAnswer :: bool
  Opcode :: byte
  Response :: bool
  ResCode :: ResultCode
  CheckingDisabled :: bool
  AuthedData :: bool
  Z :: bool
  RecursionAvailable :: bool
  Questions :: uint16
  Answers :: uint16
  AuthoritativeEntries :: uint16
  ResourceEntries :: uint16

definition NewDnsHeader :: DnsHeader where
  "NewDnsHeader =
     \<lparr>ID = 0, RecursionDesired = False, TruncatedMessage = False,
      AuthoritativeAnswer = False, Opcode = 0, Response = False, ResCode = NOERROR,
      CheckingDisabled = False, AuthedData = False, Z = False,
      RecursionAvailable = False, Questions = 0, Answers = 0,
      AuthoritativeEntries = 0, ResourceEntries = 0\<rparr>"

text \<open>
  Lines 272 to 282 of \<^verbatim>\<open>DnsHeader.Read\<close>: the ten assignments from the flag word, in
  the source's order. In Go \<^verbatim>\<open>>>\<close> and \<^verbatim>\<open>&\<close> bind equally and associate to the left,
  so \<^verbatim>\<open>flags >> 8 & 1\<close> is \<^verbatim>\<open>(flags >> 8) & 1\<close>.
\<close>

definition decode_flags :: "DnsHeader \<Rightarrow> uint16 \<Rightarrow> DnsHeader" where
  "decode_flags h flags =
     h\<lparr>RecursionDesired := (drop_bit 8 flags AND 1) > 0,
       TruncatedMessage := (drop_bit 9 flags AND 1) > 0,
       AuthoritativeAnswer := (drop_bit 10 flags AND 1) > 0,
       Opcode := ucast (drop_bit 11 flags AND 0xF),
       Response := (drop_bit 15 flags AND 1) > 0,
       ResCode := ResultCodeFromNum (ucast (flags AND 0xF)),
       CheckingDisabled := (drop_bit 12 flags AND 1) > 0,
       AuthedData := (drop_bit 13 flags AND 1) > 0,
       Z := (drop_bit 14 flags AND 1) > 0,
       RecursionAvailable := (drop_bit 7 flags AND 1) > 0\<rparr>"

text \<open>
  \<^verbatim>\<open>h.ID, err = buffer.ReadU16()\<close> assigns the field before the error is looked at, and
  \<^verbatim>\<open>ReadU16\<close> returns 0 next to an error: a failed read leaves 0 in the field.
\<close>

definition DnsHeader_Read ::
  "DnsHeader \<Rightarrow> BytePacketBuffer \<Rightarrow> (error + unit) \<times> DnsHeader \<times> BytePacketBuffer" where
  "DnsHeader_Read h buffer =
     (case ReadU16 buffer of
        (Inl e, b1) \<Rightarrow> (Inl e, h\<lparr>ID := 0\<rparr>, b1)
      | (Inr v, b1) \<Rightarrow>
     (case ReadU16 b1 of
        (Inl e, b2) \<Rightarrow> (Inl e, h\<lparr>ID := v\<rparr>, b2)
      | (Inr flags, b2) \<Rightarrow>
     (let h2 = decode_flags (h\<lparr>ID := v\<rparr>) flags in
      case ReadU16 b2 of
        (Inl e, b3) \<Rightarrow> (Inl e, h2\<lparr>Questions := 0\<rparr>, b3)
      | (Inr qd, b3) \<Rightarrow>
     (case ReadU16 b3 of
        (Inl e, b4) \<Rightarrow> (Inl e, h2\<lparr>Questions := qd, Answers := 0\<rparr>, b4)
      | (Inr an, b4) \<Rightarrow>
     (case ReadU16 b4 of
        (Inl e, b5) \<Rightarrow>
          (Inl e, h2\<lparr>Questions := qd, Answers := an, AuthoritativeEntries := 0\<rparr>, b5)
      | (Inr ns, b5) \<Rightarrow>
     (case ReadU16 b5 of
        (Inl e, b6) \<Rightarrow>
          (Inl e, h2\<lparr>Questions := qd, Answers := an, AuthoritativeEntries := ns,
                      ResourceEntries := 0\<rparr>, b6)
      | (Inr ar, b6) \<Rightarrow>
          (Inr (), h2\<lparr>Questions := qd, Answers := an, AuthoritativeEntries := ns,
                      ResourceEntries := ar\<rparr>, b6)))))))"

record DnsQuestion =
  Name :: string
  Qtype :: uint16
  Qclass :: uint16

text \<open>The zero value of \<^verbatim>\<open>var question DnsQuestion\<close>.\<close>

definition zero_DnsQuestion :: DnsQuestion where
  "zero_DnsQuestion = \<lparr>Name = [], Qtype = 0, Qclass = 0\<rparr>"

definition DnsQuestion_Read ::
  "DnsQuestion \<Rightarrow> BytePacketBuffer \<Rightarrow> ((error + unit) \<times> DnsQuestion \<times> BytePacketBuffer) option" where
  "DnsQuestion_Read q buffer =
     (case Read_qname buffer (Name q) of
        None \<Rightarrow> None
      | Some (Inl e, b1, out) \<Rightarrow> Some (Inl e, q\<lparr>Name := out\<rparr>, b1)
      | Some (Inr u, b1, out) \<Rightarrow>
     (case ReadU16 b1 of
        (Inl e, b2) \<Rightarrow> Some (Inl e, q\<lparr>Name := out, Qtype := 0\<rparr>, b2)
      | (Inr t, b2) \<Rightarrow>
     (case ReadU16 b2 of
        (Inl e, b3) \<Rightarrow> Some (Inl e, q\<lparr>Name := out, Qtype := t, Qclass := 0\<rparr>, b3)
      | (Inr c, b3) \<Rightarrow> Some (Inr (), q\<lparr>Name := out, Qtype := t, Qclass := c\<rparr>, b3))))"

definition QTYPE_A :: QueryType where "QTYPE_A = 1"

definition QTYPE_NS :: QueryType where "QTYPE_NS = 2"

definition QTYPE_CNAME :: QueryType where "QTYPE_CNAME = 5"

definition QTYPE_MX :: QueryType where "QTYPE_MX = 15"

definition QTYPE_AAAA :: QueryType where "QTYPE_AAAA = 28"

text \<open>
  The fields \<^verbatim>\<open>Name\<close> and \<^verbatim>\<open>Qtype\<close> of \<^verbatim>\<open>DnsRecord\<close> are \<open>RName\<close> and \<open>RQtype\<close> here:
  the fields of all records share one name space, and \<^verbatim>\<open>DnsQuestion\<close> has taken the two
  names. \<^verbatim>\<open>net.IP\<close> is a slice of bytes; the empty list is its \<^verbatim>\<open>nil\<close>.
\<close>

record DnsRecord =
  RName :: string
  RQtype :: QueryType
  Class :: uint16
  TTL :: uint32
  DataLen :: uint16
  Addr :: "byte list"
  Host :: string
  Priority :: uint16

text \<open>The zero value of \<^verbatim>\<open>var rec DnsRecord\<close>.\<close>

definition zero_DnsRecord :: DnsRecord where
  "zero_DnsRecord =
     \<lparr>RName = [], RQtype = 0, Class = 0, TTL = 0, DataLen = 0, Addr = [], Host = [],
      Priority = 0\<rparr>"

text \<open>
  \<^verbatim>\<open>net.IPv4(a, b, c, d)\<close> of Go's standard library returns the address in its 16-byte
  form: the prefix of an IPv4-mapped IPv6 address, then the four bytes.
\<close>

definition IPv4 :: "byte \<Rightarrow> byte \<Rightarrow> byte \<Rightarrow> byte \<Rightarrow> byte list" where
  "IPv4 a b c d = replicate 10 0 @ [0xFF, 0xFF, a, b, c, d]"

text \<open>
  The two loops \<^verbatim>\<open>for i := 0; i < n; i++\<close> that fill \<^verbatim>\<open>addr\<close> with \<^verbatim>\<open>buffer.Read()\<close>,
  leaving at the first error.
\<close>

fun read_addr :: "nat \<Rightarrow> BytePacketBuffer \<Rightarrow> (error + byte list) \<times> BytePacketBuffer" where
  "read_addr 0 b = (Inr [], b)"
| "read_addr (Suc n) b =
     (case Read b of
        (Inl e, b1) \<Rightarrow> (Inl e, b1)
      | (Inr v, b1) \<Rightarrow>
          (case read_addr n b1 of
             (Inl e, b2) \<Rightarrow> (Inl e, b2)
           | (Inr vs, b2) \<Rightarrow> (Inr (v # vs), b2)))"

text \<open>
  \<^verbatim>\<open>DnsRecordRead\<close> in two parts: the reads every record starts with (lines 360 to
  384), then the \<^verbatim>\<open>switch\<close> on the record's type (lines 387 to 427). On an error the
  function returns \<^verbatim>\<open>nil\<close>, so no record comes back with it.
\<close>

definition DnsRecord_prefix ::
  "BytePacketBuffer \<Rightarrow> ((error + DnsRecord) \<times> BytePacketBuffer) option" where
  "DnsRecord_prefix buffer =
     (case Read_qname buffer (RName zero_DnsRecord) of
        None \<Rightarrow> None
      | Some (Inl e, b1, out) \<Rightarrow> Some (Inl e, b1)
      | Some (Inr u, b1, out) \<Rightarrow>
     (case ReadU16_Query b1 of
        (Inl e, b2) \<Rightarrow> Some (Inl e, b2)
      | (Inr t, b2) \<Rightarrow>
     (case ReadU16 b2 of
        (Inl e, b3) \<Rightarrow> Some (Inl e, b3)
      | (Inr c, b3) \<Rightarrow>
     (case ReadU32 b3 of
        (Inl e, b4) \<Rightarrow> Some (Inl e, b4)
      | (Inr ttl, b4) \<Rightarrow>
     (case ReadU16 b4 of
        (Inl e, b5) \<Rightarrow> Some (Inl e, b5)
      | (Inr dl, b5) \<Rightarrow>
          Some (Inr (zero_DnsRecord\<lparr>RName := out, RQtype := t, Class := c, TTL := ttl,
                                     DataLen := dl\<rparr>), b5))))))"

definition DnsRecord_payload ::
  "DnsRecord \<Rightarrow> BytePacketBuffer \<Rightarrow> ((error + DnsRecord) \<times> BytePacketBuffer) option" where
  "DnsRecord_payload rec buffer =
     (if RQtype rec = QTYPE_A then
        (case read_addr 4 buffer of
           (Inl e, b1) \<Rightarrow> Some (Inl e, b1)
         | (Inr addr, b1) \<Rightarrow>
             Some (Inr (rec\<lparr>Addr := IPv4 (addr ! 0) (addr ! 1) (addr ! 2) (addr ! 3)\<rparr>), b1))
      else if RQtype rec = QTYPE_AAAA then
        (case read_addr 16 buffer of
           (Inl e, b1) \<Rightarrow> Some (Inl e, b1)
         | (Inr addr, b1) \<Rightarrow> Some (Inr (rec\<lparr>Addr := addr\<rparr>), b1))
      else if RQtype rec = QTYPE_CNAME then
        (case Read_qname buffer (Host rec) of
           None \<Rightarrow> None
         | Some (Inl e, b1, out) \<Rightarrow> Some (Inl e, b1)
         | Some (Inr u, b1, out) \<Rightarrow> Some (Inr (rec\<lparr>Host := out\<rparr>), b1))
      else if RQtype rec = QTYPE_MX then
        (case ReadU16 buffer of
           (Inl e, b1) \<Rightarrow> Some (Inl e, b1)
         | (Inr p, b1) \<Rightarrow>
             (case Read_qname b1 (Host rec) of
                None \<Rightarrow> None
              | Some (Inl e, b2, out) \<Rightarrow> Some (Inl e, b2)
              | Some (Inr u, b2, out) \<Rightarrow> Some (Inr (rec\<lparr>Priority := p, Host := out\<rparr>), b2)))
      else Some (Inr rec, buffer))"

definition DnsRecordRead ::
  "BytePacketBuffer \<Rightarrow> ((error + DnsRecord) \<times> BytePacketBuffer) option" where
  "DnsRecordRead buffer =
     (case DnsRecord_prefix buffer of
        None \<Rightarrow> None
      | Some (Inl e, b1) \<Rightarrow> Some (Inl e, b1)
      | Some (Inr rec, b1) \<Rightarrow> DnsRecord_payload rec b1)"

section \<open>The decoding pass of main\<close>

text \<open>
  \<^verbatim>\<open>copy(buffer.buf[:], data)\<close> overwrites the first \<open>min 512 (length data)\<close> cells and
  leaves the others, which \<^verbatim>\<open>NewBytePacketBuffer\<close> has set to 0.
\<close>

definition copy_bytes :: "byte list \<Rightarrow> byte list \<Rightarrow> byte list" where
  "copy_bytes dst src = take (length dst) src @ drop (length src) dst"

text \<open>
  The two counting loops of \<^verbatim>\<open>main\<close>, each iteration on a fresh question or record. The
  first error ends the program (\<^verbatim>\<open>os.Exit(1)\<close>); what \<^verbatim>\<open>main\<close> prints before is not
  modelled, the decoded values are returned instead.
\<close>

fun read_questions ::
  "nat \<Rightarrow> BytePacketBuffer \<Rightarrow> ((error + DnsQuestion list) \<times> BytePacketBuffer) option" where
  "read_questions 0 b = Some (Inr [], b)"
| "read_questions (Suc n) b =
     (case DnsQuestion_Read zero_DnsQuestion b of
        None \<Rightarrow> None
      | Some (Inl e, q, b1) \<Rightarrow> Some (Inl e, b1)
      | Some (Inr u, q, b1) \<Rightarrow>
          (case read_questions n b1 of
             None \<Rightarrow> None
           | Some (Inl e, b2) \<Rightarrow> Some (Inl e, b2)
           | Some (Inr qs, b2) \<Rightarrow> Some (Inr (q # qs), b2)))"

fun read_records ::
  "nat \<Rightarrow> BytePacketBuffer \<Rightarrow> ((error + DnsRecord list) \<times> BytePacketBuffer) option" where
  "read_records 0 b = Some (Inr [], b)"
| "read_records (Suc n) b =
     (case DnsRecordRead b of
        None \<Rightarrow> None
      | Some (Inl e, b1) \<Rightarrow> Some (Inl e, b1)
      | Some (Inr r, b1) \<Rightarrow>
          (case read_records n b1 of
             None \<Rightarrow> None
           | Some (Inl e, b2) \<Rightarrow> Some (Inl e, b2)
           | Some (Inr rs, b2) \<Rightarrow> Some (Inr (r # rs), b2)))"

definition load_buffer :: "byte list \<Rightarrow> BytePacketBuffer" where
  "load_buffer data = NewBytePacketBuffer\<lparr>buf := copy_bytes (buf NewBytePacketBuffer) data\<rparr>"

definition main_decode ::
  "byte list \<Rightarrow> (error + DnsHeader \<times> DnsQuestion list \<times> DnsRecord list) option" where
  "main_decode data =
     (let buffer = load_buffer data in
      case DnsHeader_Read NewDnsHeader buffer of
        (Inl e, header, b1) \<Rightarrow> Some (Inl e)
      | (Inr u, header, b1) \<Rightarrow>
     (case read_questions (unat (Questions header)) b1 of
        None \<Rightarrow> None
      | Some (Inl e, b2) \<Rightarrow> Some (Inl e)
      | Some (Inr qs, b2) \<Rightarrow>
     (case read_records (unat (Answers header)) b2 of
        None \<Rightarrow> None
      | Some (Inl e, b3) \<Rightarrow> Some (Inl e)
      | Some (Inr rs, b3) \<Rightarrow> Some (Inr (header, qs, rs)))))"

text \<open>
  The measure under which the loop of \<^verbatim>\<open>Read_qname\<close> ends: the jumps still allowed
  come first, then the distance of the local position from the end of the array.
\<close>

definition qname_measure :: "qname_state \<Rightarrow> nat" where
  "qname_measure s = nat (6 - jumpsPerformed s) * 513 + nat (512 - qpos s)"

section \<open>Names on the wire\<close>

text \<open>
  The wire form of a name, used to say what a buffer holds: each label is an octet with
  its length, then its bytes. \<open>dotted\<close> is the text of the labels, joined by dots. The
  loop takes every octet whose two top bits are not both set as a length, so a label of
  up to 191 bytes is read as one; \<open>labels_ok\<close> says that no label is empty or longer.
\<close>

fun encode_labels :: "byte list list \<Rightarrow> byte list" where
  "encode_labels [] = []"
| "encode_labels (l # ls) = of_nat (length l) # l @ encode_labels ls"

fun dotted :: "byte list list \<Rightarrow> string" where
  "dotted [] = []"
| "dotted [l] = map byte_char l"
| "dotted (l # ls) = map byte_char l @ ''.'' @ dotted ls"

definition labels_ok :: "byte list list \<Rightarrow> bool" where
  "labels_ok ls = list_all (\<lambda>l. l \<noteq> [] \<and> length l < 192) ls"


text \<open>
  Where \<open>n\<close> compression pointers in a row lead from the position \<open>p\<close>: each must have
  its two octets inside the buffer and the two top bits of the first set.
\<close>

fun pointer_chain :: "BytePacketBuffer \<Rightarrow> int \<Rightarrow> nat \<Rightarrow> int option" where
  "pointer_chain b p 0 = Some p"
| "pointer_chain b p (Suc n) =
     (if 0 \<le> p \<and> p + 1 < 512 \<and> buf b ! nat p AND 0xC0 = 0xC0
      then pointer_chain b (pointer_offset (buf b ! nat p) (buf b ! nat (p + 1))) n
      else None)"

section \<open>The primitive reads\<close>

lemma wrap_int_id:
  "- 9223372036854775808 \<le> x \<Longrightarrow> x < 9223372036854775808 \<Longrightarrow> wrap_int x = x"
  by (simp add: wrap_int_def)

lemma uint_byte_bounds: "0 \<le> uint (w :: byte) \<and> uint w < 256"
  using uint_bounded [of w] by simp

lemma Read_cases:
  "512 \<le> pos b \<and> Read b = (Inl BufferOverrun, b)
   \<or> pos b < 0 \<and> Read b = (Inl IndexOutOfRange, b)
   \<or> 0 \<le> pos b \<and> pos b < 512 \<and> Read b = (Inr (buf b ! nat (pos b)), b\<lparr>pos := pos b + 1\<rparr>)"
  by (simp add: Read_def index_buf_def)

lemma ReadU16_cases:
  "512 \<le> pos b \<and> ReadU16 b = (Inl BufferOverrun, b)
   \<or> pos b < 0 \<and> ReadU16 b = (Inl IndexOutOfRange, b)
   \<or> pos b = 511 \<and> ReadU16 b = (Inl BufferOverrun, b\<lparr>pos := 512\<rparr>)
   \<or> 0 \<le> pos b \<and> pos b < 511 \<and>
      ReadU16 b = (Inr (push_bit 8 (ucast (buf b ! nat (pos b))) OR ucast (buf b ! nat (pos b + 1))),
                   b\<lparr>pos := pos b + 2\<rparr>)"
  by (auto simp: ReadU16_def Read_def index_buf_def)

lemma ReadU16_Query_eq: "ReadU16_Query b = ReadU16 b"
  by (simp add: ReadU16_Query_def ReadU16_def)

lemma ReadU32_cases:
  "512 \<le> pos b \<and> ReadU32 b = (Inl BufferOverrun, b)
   \<or> pos b < 0 \<and> ReadU32 b = (Inl IndexOutOfRange, b)
   \<or> 509 \<le> pos b \<and> pos b \<le> 511 \<and> ReadU32 b = (Inl BufferOverrun, b\<lparr>pos := 512\<rparr>)
   \<or> 0 \<le> pos b \<and> pos b < 509 \<and>
      ReadU32 b = (Inr (push_bit 24 (ucast (buf b ! nat (pos b)))
                        OR push_bit 16 (ucast (buf b ! nat (pos b + 1)))
                        OR push_bit 8 (ucast (buf b ! nat (pos b + 2)))
                        OR ucast (buf b ! nat (pos b + 3))),
                   b\<lparr>pos := pos b + 4\<rparr>)"
  by (auto simp: ReadU32_def Read_def index_buf_def add.commute)

lemma GetRange_Inr:
  assumes "GetRange b start (uint (l :: byte)) = Inr bs" and "0 \<le> start" and "start \<le> 512"
  shows "start + uint l < 512 \<and> bs = take (nat (uint l)) (drop (nat start) (buf b))"
proof -
  have "0 \<le> uint l" and "uint l < 256"
    using uint_byte_bounds [of l] by blast+
  then have w: "wrap_int (start + uint l) = start + uint l"
    using assms(2,3) by (intro wrap_int_id) linarith+
  show ?thesis using assms(1) uint_byte_bounds [of l] unfolding GetRange_def w slice_buf_def
    by (auto split: if_splits)
qed

section \<open>The loop of Read_qname ends\<close>

lemma qname_body_Continue:
  assumes "qname_body s = Continue s'"
  shows "jumpsPerformed s \<le> 5 \<and> 0 \<le> qpos s \<and> qpos s < 512 \<and>
     (jumpsPerformed s' = jumpsPerformed s + 1 \<and> 0 \<le> qpos s'
      \<or> jumpsPerformed s' = jumpsPerformed s \<and> qpos s < qpos s' \<and> qpos s' < 512)"
proof -
  from assms have j: "jumpsPerformed s \<le> 5"
    by (auto simp: qname_body_def maxJumps_def split: if_splits)
  from assms obtain len where g: "Get (qbuf s) (qpos s) = Inr len"
    by (auto simp: qname_body_def split: if_splits sum.splits)
  then have r: "0 \<le> qpos s \<and> qpos s < 512"
    by (auto simp: Get_def index_buf_def split: if_splits)
  show ?thesis
  proof (cases "len AND 0xC0 = 0xC0")
    case True
    with assms j g have "jumpsPerformed s' = jumpsPerformed s + 1 \<and> 0 \<le> qpos s'"
      by (auto simp: qname_body_def maxJumps_def Let_def pointer_offset_def
          split: if_splits sum.splits)
    with j r show ?thesis by simp
  next
    case False
    with assms j g obtain bs where
      gr: "GetRange (qbuf s) (qpos s + 1) (uint len) = Inr bs" and l: "len \<noteq> 0"
      and s': "jumpsPerformed s' = jumpsPerformed s" "qpos s' = qpos s + 1 + uint len"
      by (auto simp: qname_body_def maxJumps_def Let_def split: if_splits sum.splits)
    from GetRange_Inr [OF gr] r have "qpos s + 1 + uint len < 512" by simp
    moreover have "0 < uint len"
    proof -
      have "uint len \<noteq> 0" using l by (simp add: uint_0_iff)
      moreover have "0 \<le> uint len" by simp
      ultimately show ?thesis by linarith
    qed
    ultimately show ?thesis using j r s' by simp
  qed
qed

lemma qname_body_decreases:
  assumes "qname_body s = Continue s'"
  shows "qname_measure s' < qname_measure s"
  using qname_body_Continue [OF assms] unfolding qname_measure_def
  by (auto simp: nat_diff_distrib nat_add_distrib)

lemma qname_loop_total: "\<exists>r. qname_loop s = Some r"
proof (induction "qname_measure s" arbitrary: s rule: less_induct)
  case less
  show ?case
  proof (cases "qname_body s")
    case (Continue s')
    then have "qname_measure s' < qname_measure s" by (rule qname_body_decreases)
    then obtain r where "qname_loop s' = Some r" using less by blast
    then show ?thesis using Continue by (subst qname_loop.simps) simp
  next
    case (Return e s')
    then show ?thesis by (subst qname_loop.simps) simp
  next
    case (Break s')
    then show ?thesis by (subst qname_loop.simps) simp
  qed
qed


text \<open>
  Name decoding ends on every buffer content and every cursor: \<open>Read_qname\<close> is defined
  as a partial function, and it has a value whatever the buffer, the cursor and the string
  it appends to. A pass through the loop that goes round again started with at most five
  jumps taken, and it either took one more jump or moved the local position forward, to a
  position below 512. The value can be \<open>Inl IndexOutOfRange\<close>, the panic.
\<close>

lemma Read_qname_terminates:
  "(\<exists>r. Read_qname b out = Some r) \<and>
   (qname_body s = Continue s' \<longrightarrow>
      jumpsPerformed s \<le> maxJumps \<and>
      (jumpsPerformed s' = jumpsPerformed s + 1
       \<or> jumpsPerformed s' = jumpsPerformed s \<and> qpos s < qpos s' \<and> qpos s' < 512))"
proof -
  obtain r t where "qname_loop \<lparr>qbuf = b, qpos = Pos b, delim = [], jumped = False,
                       jumpsPerformed = 0, outstr = out\<rparr> = Some (r, t)"
    using qname_loop_total by (metis surj_pair)
  then have "\<exists>r. Read_qname b out = Some r" by (cases r) (simp_all add: Read_qname_def)
  moreover have "jumpsPerformed s \<le> maxJumps \<and>
      (jumpsPerformed s' = jumpsPerformed s + 1
       \<or> jumpsPerformed s' = jumpsPerformed s \<and> qpos s < qpos s' \<and> qpos s' < 512)"
    if "qname_body s = Continue s'"
    using qname_body_Continue [OF that] by (auto simp: maxJumps_def)
  ultimately show ?thesis by blast
qed

text \<open>
  C10. The claim fails in what decoding ends with. The name is the two bytes \<open>C3 FF\<close>, a
  compression pointer to offset 1023. \<^verbatim>\<open>Read_qname\<close> does not loop, but it returns neither
  a name nor an error: the second pass calls \<^verbatim>\<open>Get(1023)\<close> with the cursor at 2, the
  test of the cursor passes and \<^verbatim>\<open>b.buf[1023]\<close> panics. With the same name behind a
  header that declares one question, the decoding pass of \<^verbatim>\<open>main\<close> ends in that panic.
\<close>

theorem Read_qname_pointer_outside_panics:
  "pointer_offset 0xC3 0xFF = 1023 \<and>
   Read_qname (load_buffer [0xC3, 0xFF]) [] =
     Some (Inl IndexOutOfRange, (load_buffer [0xC3, 0xFF])\<lparr>pos := 2\<rparr>, []) \<and>
   main_decode [0, 0, 0, 0, 0, 1, 0, 0, 0, 0, 0, 0, 0xC3, 0xFF] = Some (Inl IndexOutOfRange)"
  by code_simp

section \<open>Reads and peeks at the end of the buffer\<close>

text \<open>
  What the three bound checks of the buffer do at index 512 and beyond. \<^verbatim>\<open>Read\<close> tests
  the index it reads, the cursor, and \<^verbatim>\<open>GetRange\<close> tests the end of the range it
  returns. \<^verbatim>\<open>Get\<close> tests the cursor too, which is not the index it reads: with the
  cursor inside the buffer, an index of 512 or more reaches \<^verbatim>\<open>b.buf[pos]\<close> and panics.
\<close>

lemma past_end_checks:
  "(512 \<le> pos b \<longrightarrow> Read b = (Inl BufferOverrun, b)) \<and>
   (512 \<le> pos b \<longrightarrow> Get b p = Inl BufferOverrun) \<and>
   (pos b < 512 \<and> 512 \<le> p \<longrightarrow> Get b p = Inl IndexOutOfRange) \<and>
   (0 \<le> start \<and> 0 \<le> len \<and> len < 256 \<and> start \<le> 512 \<and> 512 \<le> start + len \<longrightarrow>
      GetRange b start len = Inl BufferOverrun)"
  by (simp add: Read_def Get_def index_buf_def GetRange_def wrap_int_id)

text \<open>
  C1. The claim fails for \<^verbatim>\<open>Get\<close>: on a fresh buffer (cursor 0) \<^verbatim>\<open>Get(512)\<close> does not
  return the "end of buffer" error, it indexes the array at 512 and the program panics.
  A packet reaches this through \<^verbatim>\<open>Read_qname\<close>: the two bytes \<open>C2 00\<close> at the
  cursor are a compression pointer to offset 512, the cursor is moved to 2 and the next
  pass of the loop calls \<^verbatim>\<open>Get(512)\<close>.
\<close>

theorem Get_index_past_end_panics:
  "Get NewBytePacketBuffer 512 = Inl IndexOutOfRange \<and>
   Read_qname (load_buffer [0xC2, 0]) [] =
     Some (Inl IndexOutOfRange, (load_buffer [0xC2, 0])\<lparr>pos := 2\<rparr>, [])"
  by (simp add: Read_qname_def qname_loop.simps qname_body_def Get_def index_buf_def Seek_def
      load_buffer_def copy_bytes_def NewBytePacketBuffer_def Pos_def maxJumps_def
      pointer_offset_def)

text \<open>
  C6 as stated fails: \<^verbatim>\<open>ReadU16\<close> with the cursor at 511 reads byte 511, fails on the
  second byte and returns the error with the cursor at 512, not at 511.
\<close>

theorem ReadU16_failing_partway_moves_cursor:
  "fst (ReadU16 (NewBytePacketBuffer\<lparr>pos := 511\<rparr>)) = Inl BufferOverrun \<and>
   pos (snd (ReadU16 (NewBytePacketBuffer\<lparr>pos := 511\<rparr>))) = 512 \<and>
   pos (NewBytePacketBuffer\<lparr>pos := 511\<rparr>) = 511"
  by (simp add: ReadU16_def Read_def index_buf_def NewBytePacketBuffer_def)

text \<open>
  C6, amended. What each read does is fixed by the cursor. \<^verbatim>\<open>Read\<close> succeeds, moving
  the cursor by 1, when the cursor is in 0..511; otherwise it fails and leaves the buffer
  as it was. \<^verbatim>\<open>ReadU16\<close> succeeds, moving the cursor by 2, when the cursor is in 0..510,
  and \<^verbatim>\<open>ReadU32\<close> succeeds, moving it by 4, when the cursor is in 0..508. With the
  cursor at 511 \<^verbatim>\<open>ReadU16\<close>, and with the cursor at 509, 510 or 511 \<^verbatim>\<open>ReadU32\<close>, fails
  with \<open>BufferOverrun\<close> after it has consumed bytes, and leaves the cursor at 512: the
  cursor is not put back. With the cursor at 512 or beyond, or below 0, both fail on
  their first byte and leave the buffer as it was.
\<close>

theorem reads_succeed_or_stop_at_end:
  "(512 \<le> pos b \<and> Read b = (Inl BufferOverrun, b)
    \<or> pos b < 0 \<and> Read b = (Inl IndexOutOfRange, b)
    \<or> 0 \<le> pos b \<and> pos b < 512 \<and>
       Read b = (Inr (buf b ! nat (pos b)), b\<lparr>pos := pos b + 1\<rparr>)) \<and>
   (512 \<le> pos b \<and> ReadU16 b = (Inl BufferOverrun, b)
    \<or> pos b < 0 \<and> ReadU16 b = (Inl IndexOutOfRange, b)
    \<or> pos b = 511 \<and> ReadU16 b = (Inl BufferOverrun, b\<lparr>pos := 512\<rparr>)
    \<or> 0 \<le> pos b \<and> pos b < 511 \<and>
       ReadU16 b = (Inr (push_bit 8 (ucast (buf b ! nat (pos b))) OR ucast (buf b ! nat (pos b + 1))),
                    b\<lparr>pos := pos b + 2\<rparr>)) \<and>
   (512 \<le> pos b \<and> ReadU32 b = (Inl BufferOverrun, b)
    \<or> pos b < 0 \<and> ReadU32 b = (Inl IndexOutOfRange, b)
    \<or> 509 \<le> pos b \<and> pos b \<le> 511 \<and> ReadU32 b = (Inl BufferOverrun, b\<lparr>pos := 512\<rparr>)
    \<or> 0 \<le> pos b \<and> pos b < 509 \<and>
       ReadU32 b = (Inr (push_bit 24 (ucast (buf b ! nat (pos b)))
                         OR push_bit 16 (ucast (buf b ! nat (pos b + 1)))
                         OR push_bit 8 (ucast (buf b ! nat (pos b + 2)))
                         OR ucast (buf b ! nat (pos b + 3))),
                    b\<lparr>pos := pos b + 4\<rparr>))"
  using Read_cases [of b] ReadU16_cases [of b] ReadU32_cases [of b] by blast

text \<open>
  C9 as stated fails: \<^verbatim>\<open>Seek(513)\<close> on a fresh buffer reports success and leaves the
  cursor at 513.
\<close>

theorem Seek_past_end_succeeds:
  "fst (Seek NewBytePacketBuffer 513) = Inr () \<and> 512 < pos (snd (Seek NewBytePacketBuffer 513))"
  by (simp add: Seek_def)

text \<open>
  C9, amended. A successful \<^verbatim>\<open>Read\<close>, \<^verbatim>\<open>ReadU16\<close> or \<^verbatim>\<open>ReadU32\<close> leaves the cursor at
  most at 512, and a failed one leaves it where it was or at 512. \<^verbatim>\<open>Get\<close> succeeds only
  with the cursor below 512. \<^verbatim>\<open>GetRange\<close> does not look at the cursor. \<^verbatim>\<open>Seek\<close> and
  \<^verbatim>\<open>Step\<close> always report success and set the cursor to what they are asked, with no
  bound: they are the only operations that take the cursor past 512.
\<close>

theorem position_after_operations:
  "((\<exists>e. Read b = (Inl e, b)) \<or> (\<exists>v. Read b = (Inr v, b\<lparr>pos := pos b + 1\<rparr>) \<and> pos b + 1 \<le> 512)) \<and>
   ((\<exists>e. ReadU16 b = (Inl e, b)) \<or> (\<exists>e. ReadU16 b = (Inl e, b\<lparr>pos := 512\<rparr>))
     \<or> (\<exists>v. ReadU16 b = (Inr v, b\<lparr>pos := pos b + 2\<rparr>) \<and> pos b + 2 \<le> 512)) \<and>
   ((\<exists>e. ReadU32 b = (Inl e, b)) \<or> (\<exists>e. ReadU32 b = (Inl e, b\<lparr>pos := 512\<rparr>))
     \<or> (\<exists>v. ReadU32 b = (Inr v, b\<lparr>pos := pos b + 4\<rparr>) \<and> pos b + 4 \<le> 512)) \<and>
   ((\<exists>e. Get b p = Inl e) \<or> pos b < 512) \<and>
   GetRange (b\<lparr>pos := c\<rparr>) start len = GetRange b start len \<and>
   Seek b p = (Inr (), b\<lparr>pos := p\<rparr>) \<and>
   Step b n = (Inr (), b\<lparr>pos := wrap_int (pos b + n)\<rparr>)"
proof -
  have 1: "(\<exists>e. Read b = (Inl e, b)) \<or> (\<exists>v. Read b = (Inr v, b\<lparr>pos := pos b + 1\<rparr>) \<and> pos b + 1 \<le> 512)"
    using Read_cases [of b] by auto
  have 2: "(\<exists>e. ReadU16 b = (Inl e, b)) \<or> (\<exists>e. ReadU16 b = (Inl e, b\<lparr>pos := 512\<rparr>))
     \<or> (\<exists>v. ReadU16 b = (Inr v, b\<lparr>pos := pos b + 2\<rparr>) \<and> pos b + 2 \<le> 512)"
    using ReadU16_cases [of b] by auto
  have 3: "(\<exists>e. ReadU32 b = (Inl e, b)) \<or> (\<exists>e. ReadU32 b = (Inl e, b\<lparr>pos := 512\<rparr>))
     \<or> (\<exists>v. ReadU32 b = (Inr v, b\<lparr>pos := pos b + 4\<rparr>) \<and> pos b + 4 \<le> 512)"
    using ReadU32_cases [of b] by auto
  have 4: "(\<exists>e. Get b p = Inl e) \<or> pos b < 512"
    by (simp add: Get_def)
  have 5: "GetRange (b\<lparr>pos := c\<rparr>) start len = GetRange b start len"
    by (simp add: GetRange_def slice_buf_def)
  have 6: "Seek b p = (Inr (), b\<lparr>pos := p\<rparr>)"
    "Step b n = (Inr (), b\<lparr>pos := wrap_int (pos b + n)\<rparr>)"
    by (simp_all add: Seek_def Step_def)
  from 1 2 3 4 5 6 show ?thesis by blast
qed

section \<open>The flag word of the header\<close>

lemma bit_test: "(drop_bit n (w :: uint16) AND 1 > 0) = bit w n"
  by (simp add: word_greater_zero_iff and_one_eq bit_iff_odd_drop_bit
      flip: even_iff_mod_2_eq_zero)

text \<open>
  The bit each field is read from, for every flag word. Response, the opcode, AA, TC, RD,
  RA and the result code sit where RFC 1035 puts them. \<open>Z\<close>, \<open>AuthedData\<close> and
  \<open>CheckingDisabled\<close> are read from bits 14, 13 and 12, which are three of the four bits
  of the opcode; bits 6, 5 and 4 of the flag word are read into no field.
\<close>

lemma decode_flags_bits:
  "Response (decode_flags h f) = bit f 15 \<and>
   Opcode (decode_flags h f) = ucast (drop_bit 11 f AND 0xF) \<and>
   AuthoritativeAnswer (decode_flags h f) = bit f 10 \<and>
   TruncatedMessage (decode_flags h f) = bit f 9 \<and>
   RecursionDesired (decode_flags h f) = bit f 8 \<and>
   RecursionAvailable (decode_flags h f) = bit f 7 \<and>
   Z (decode_flags h f) = bit f 14 \<and>
   AuthedData (decode_flags h f) = bit f 13 \<and>
   CheckingDisabled (decode_flags h f) = bit f 12 \<and>
   ResCode (decode_flags h f) = ResultCodeFromNum (ucast (f AND 0xF))"
  by (simp add: decode_flags_def bit_test)

text \<open>
  C2. The claim fails on the code for \<open>Z\<close>, \<open>AuthedData\<close> and \<open>CheckingDisabled\<close>. A
  header with the flag word \<open>0x0070\<close> (bits 6, 5 and 4 set, all others clear) decodes
  with the three fields false; a header with the flag word \<open>0x7000\<close> (bits 6, 5 and 4
  clear, opcode 14) decodes with the three fields true.
\<close>

theorem DnsHeader_Read_misplaces_Z_AD_CD:
  "DnsHeader_Read NewDnsHeader (load_buffer [0, 0, 0x00, 0x70, 0, 0, 0, 0, 0, 0, 0, 0]) =
     (Inr (), NewDnsHeader,
      (load_buffer [0, 0, 0x00, 0x70, 0, 0, 0, 0, 0, 0, 0, 0])\<lparr>pos := 12\<rparr>) \<and>
   DnsHeader_Read NewDnsHeader (load_buffer [0, 0, 0x70, 0x00, 0, 0, 0, 0, 0, 0, 0, 0]) =
     (Inr (),
      NewDnsHeader\<lparr>Opcode := 14, CheckingDisabled := True, AuthedData := True, Z := True\<rparr>,
      (load_buffer [0, 0, 0x70, 0x00, 0, 0, 0, 0, 0, 0, 0, 0])\<lparr>pos := 12\<rparr>)"
  by (simp add: DnsHeader_Read_def ReadU16_def Read_def index_buf_def load_buffer_def
      copy_bytes_def NewBytePacketBuffer_def NewDnsHeader_def decode_flags_def
      ResultCodeFromNum_def)

section \<open>Walking the labels of a name\<close>

lemma take_drop_Cons:
  assumes "take (Suc n) (drop k xs) = y # ys"
  shows "k < length xs \<and> xs ! k = y \<and> take n (drop (Suc k) xs) = ys"
proof -
  have k: "k < length xs" using assms by (cases "k < length xs") auto
  then have "drop k xs = xs ! k # drop (Suc k) xs" by (simp add: Cons_nth_drop_Suc)
  with assms k show ?thesis by simp
qed

lemma take_drop_append:
  assumes "take (length ys + n) (drop k xs) = ys @ zs"
  shows "take (length ys) (drop k xs) = ys \<and> take n (drop (k + length ys) xs) = zs"
proof -
  have "take (length ys) (take (length ys + n) (drop k xs)) = take (length ys) (ys @ zs)"
    using assms by simp
  then have 1: "take (length ys) (drop k xs) = ys" by (simp add: min_def)
  have "drop (length ys) (take (length ys + n) (drop k xs)) = drop (length ys) (ys @ zs)"
    using assms by simp
  then have 2: "take n (drop (k + length ys) xs) = zs" by (simp add: drop_take add.commute)
  from 1 2 show ?thesis by simp
qed

lemma label_octet:
  assumes "n < 192"
  shows "uint (of_nat n :: byte) = int n \<and> (of_nat n :: byte) AND 0xC0 \<noteq> 0xC0"
proof -
  have u: "unat (of_nat n :: byte) = n" using assms by (simp add: unat_of_nat)
  have "(of_nat n :: byte) AND 0xC0 \<noteq> 0xC0"
  proof
    assume a: "(of_nat n :: byte) AND 0xC0 = 0xC0"
    have "(of_nat n :: byte) AND 0xC0 \<le> of_nat n" by (rule word_and_le2)
    then have "(0xC0 :: byte) \<le> of_nat n" using a by simp
    then have "unat (0xC0 :: byte) \<le> unat (of_nat n :: byte)" by (simp add: word_le_nat_alt)
    then show False using u assms by simp
  qed
  moreover have "uint (of_nat n :: byte) = int n" using u by (metis uint_nat) 
  ultimately show ?thesis by simp
qed

lemma qname_body_label:
  assumes j: "jumpsPerformed s \<le> 5" and c: "pos (qbuf s) < 512" and p: "0 \<le> qpos s"
    and l: "l \<noteq> []" "length l < 192"
    and bytes: "take (Suc (length l)) (drop (nat (qpos s)) (buf (qbuf s))) = of_nat (length l) # l"
    and e: "qpos s + 1 + int (length l) < 512"
  shows "qname_body s =
           Continue (s\<lparr>qpos := qpos s + 1 + int (length l),
                       outstr := outstr s @ delim s @ map byte_char l,
                       delim := ''.''\<rparr>)"
proof -
  from take_drop_Cons [OF bytes]
  have b0: "buf (qbuf s) ! nat (qpos s) = of_nat (length l)"
    and b1: "take (length l) (drop (Suc (nat (qpos s))) (buf (qbuf s))) = l" by simp_all
  from label_octet [OF l(2)]
  have u: "uint (of_nat (length l) :: byte) = int (length l)"
    and nc: "(of_nat (length l) :: byte) AND 0xC0 \<noteq> 0xC0" by simp_all
  have nz: "(of_nat (length l) :: byte) \<noteq> 0"
    using u l(1) by (metis length_0_conv of_nat_eq_0_iff uint_0_eq)
  have g: "Get (qbuf s) (qpos s) = Inr (of_nat (length l))"
    using c p e b0 by (simp add: Get_def index_buf_def)
  have w: "wrap_int (qpos s + 1 + int (length l)) = qpos s + 1 + int (length l)"
    using p e by (intro wrap_int_id) linarith+
  have s1: "Suc (nat (qpos s)) = nat (qpos s + 1)" using p by simp
  have "GetRange (qbuf s) (qpos s + 1) (int (length l)) =
          slice_buf (qbuf s) (qpos s + 1) (qpos s + 1 + int (length l))"
    using e by (simp only: GetRange_def w) simp
  then have gr: "GetRange (qbuf s) (qpos s + 1) (int (length l)) = Inr l"
    using p e b1 by (simp add: slice_buf_def s1)
  show ?thesis
    using j g nc nz gr u by (simp add: qname_body_def maxJumps_def Let_def)
qed


lemma dotted_Cons:
  "out @ d @ dotted (l # ls) =
     (if ls = [] then out @ d @ map byte_char l
      else (out @ d @ map byte_char l) @ ''.'' @ dotted ls)"
  by (cases ls) simp_all

lemma qname_loop_labels:
  assumes "labels_ok ls" and "jumpsPerformed s \<le> 5" and "pos (qbuf s) < 512" and "0 \<le> qpos s"
    and "take (length (encode_labels ls)) (drop (nat (qpos s)) (buf (qbuf s))) = encode_labels ls"
    and "qpos s + int (length (encode_labels ls)) < 512"
  shows "qname_loop s =
           qname_loop (s\<lparr>qpos := qpos s + int (length (encode_labels ls)),
                          outstr := (if ls = [] then outstr s else outstr s @ delim s @ dotted ls),
                          delim := (if ls = [] then delim s else ''.'')\<rparr>)"
  using assms
proof (induction ls arbitrary: s)
  case Nil
  then show ?case by simp
next
  case (Cons l ls)
  let ?n = "length (encode_labels ls)"
  let ?s1 = "s\<lparr>qpos := qpos s + 1 + int (length l),
               outstr := outstr s @ delim s @ map byte_char l, delim := ''.''\<rparr>"
  from Cons.prems(1) have l: "l \<noteq> []" "length l < 192" and ok: "labels_ok ls"
    by (simp_all add: labels_ok_def)
  have split: "take (length (of_nat (length l) # l) + ?n) (drop (nat (qpos s)) (buf (qbuf s))) =
          (of_nat (length l) # l) @ encode_labels ls"
    using Cons.prems(5) by simp
  from take_drop_append [OF split]
  have b1: "take (Suc (length l)) (drop (nat (qpos s)) (buf (qbuf s))) = of_nat (length l) # l"
    and b2: "take ?n (drop (nat (qpos s) + Suc (length l)) (buf (qbuf s))) = encode_labels ls"
    by simp_all
  have e: "qpos s + 1 + int (length l) < 512" using Cons.prems(6) by simp
  have body: "qname_body s = Continue ?s1"
    by (rule qname_body_label [OF Cons.prems(2,3,4) l b1 e])
  have pos1: "nat (qpos ?s1) = nat (qpos s) + Suc (length l)"
    using Cons.prems(4) by (simp add: nat_add_distrib)
  have ih: "qname_loop ?s1 =
           qname_loop (?s1\<lparr>qpos := qpos ?s1 + int ?n,
                          outstr := (if ls = [] then outstr ?s1 else outstr ?s1 @ delim ?s1 @ dotted ls),
                          delim := (if ls = [] then delim ?s1 else ''.'')\<rparr>)"
  proof (rule Cons.IH [OF ok])
    show "jumpsPerformed ?s1 \<le> 5" using Cons.prems(2) by simp
    show "pos (qbuf ?s1) < 512" using Cons.prems(3) by simp
    show "0 \<le> qpos ?s1" using Cons.prems(4) by simp
    show "take ?n (drop (nat (qpos ?s1)) (buf (qbuf ?s1))) = encode_labels ls"
      unfolding pos1 using b2 by simp
    show "qpos ?s1 + int ?n < 512" using Cons.prems(6) by simp
  qed
  have "qname_loop s = qname_loop ?s1"
    by (subst qname_loop.simps) (simp add: body)
  also note ih
  finally show ?case
    by (simp add: dotted_Cons add.assoc add.commute add.left_commute)
qed


lemma qname_body_zero:
  assumes "jumpsPerformed s \<le> 5" and "pos (qbuf s) < 512" and "0 \<le> qpos s" and "qpos s < 512"
    and "buf (qbuf s) ! nat (qpos s) = 0"
  shows "qname_body s = Break (s\<lparr>qpos := qpos s + 1\<rparr>)"
  using assms by (simp add: qname_body_def maxJumps_def Get_def index_buf_def)

lemma qname_body_pointer:
  assumes "jumpsPerformed s \<le> 5" and "pos (qbuf s) < 512" and "0 \<le> qpos s"
    and "qpos s + 1 < 512"
    and "buf (qbuf s) ! nat (qpos s) = len" and "len AND 0xC0 = 0xC0"
    and "buf (qbuf s) ! nat (qpos s + 1) = off"
    and "jumped s \<or> qpos s + 2 < 512"
  shows "qname_body s =
           Continue (s\<lparr>qbuf := (if jumped s then qbuf s else (qbuf s)\<lparr>pos := qpos s + 2\<rparr>),
                       qpos := pointer_offset len off,
                       jumped := True,
                       jumpsPerformed := jumpsPerformed s + 1\<rparr>)"
  using assms by (auto simp: qname_body_def maxJumps_def Get_def index_buf_def Seek_def Let_def)

text \<open>
  A name without pointers: labels and the zero octet, all inside the buffer. Decoding
  succeeds, appends the dotted text and leaves the cursor behind the zero octet.
\<close>

lemma Read_qname_uncompressed:
  assumes ok: "labels_ok ls" and p: "0 \<le> pos b"
    and bytes: "take (length (encode_labels ls) + 1) (drop (nat (pos b)) (buf b)) = encode_labels ls @ [0]"
    and e: "pos b + int (length (encode_labels ls)) < 512"
  shows "Read_qname b out =
           Some (Inr (), b\<lparr>pos := pos b + int (length (encode_labels ls)) + 1\<rparr>,
                 if ls = [] then out else out @ dotted ls)"
proof -
  let ?n = "length (encode_labels ls)"
  let ?s0 = "\<lparr>qbuf = b, qpos = Pos b, delim = [], jumped = False, jumpsPerformed = 0, outstr = out\<rparr>"
  let ?s1 = "?s0\<lparr>qpos := qpos ?s0 + int ?n,
                 outstr := (if ls = [] then outstr ?s0 else outstr ?s0 @ delim ?s0 @ dotted ls),
                 delim := (if ls = [] then delim ?s0 else ''.'')\<rparr>"
  from take_drop_append [OF bytes]
  have b1: "take ?n (drop (nat (pos b)) (buf b)) = encode_labels ls"
    and b2: "take (Suc 0) (drop (nat (pos b) + ?n) (buf b)) = [0]" by simp_all
  from take_drop_Cons [OF b2] have z: "buf b ! (nat (pos b) + ?n) = 0" by simp
  have c: "pos b < 512" using e by linarith
  have walk: "qname_loop ?s0 = qname_loop ?s1"
    by (rule qname_loop_labels [OF ok]) (use p b1 e c in \<open>simp_all add: Pos_def\<close>)
  have "nat (pos b + int ?n) = nat (pos b) + ?n" using p by (simp add: nat_add_distrib)
  then have "qname_body ?s1 = Break (?s1\<lparr>qpos := qpos ?s1 + 1\<rparr>)"
    using p e c z by (intro qname_body_zero) (simp_all add: Pos_def)
  then have "qname_loop ?s1 = Some (Inr (), ?s1\<lparr>qpos := qpos ?s1 + 1\<rparr>)"
    by (subst qname_loop.simps) simp
  with walk show ?thesis
    by (simp add: Read_qname_def Seek_def Pos_def)
qed

text \<open>The text of the three labels of the name in C5.\<close>

lemma www_example_com_text:
  "dotted [[0x77, 0x77, 0x77], [0x65, 0x78, 0x61, 0x6D, 0x70, 0x6C, 0x65], [0x63, 0x6F, 0x6D]] =
     ''www.example.com''"
  by code_simp

text \<open>
  C5. In a buffer of 512 bytes that holds the seventeen bytes
  \<open>{3}www{7}example{3}com{0}\<close> at its cursor, wherever the cursor is, \<^verbatim>\<open>Read_qname\<close> on
  an empty string succeeds, the string is \<open>www.example.com\<close> and the cursor has moved by
  17: it is one byte past the zero octet.
\<close>

theorem Read_qname_www_example_com:
  assumes "wf_buffer b" and "0 \<le> pos b"
    and "take 17 (drop (nat (pos b)) (buf b)) =
           [3, 0x77, 0x77, 0x77, 7, 0x65, 0x78, 0x61, 0x6D, 0x70, 0x6C, 0x65, 3, 0x63, 0x6F, 0x6D, 0]"
  shows "Read_qname b [] = Some (Inr (), b\<lparr>pos := pos b + 17\<rparr>, ''www.example.com'')"
proof -
  let ?ls = "[[0x77, 0x77, 0x77], [0x65, 0x78, 0x61, 0x6D, 0x70, 0x6C, 0x65], [0x63, 0x6F, 0x6D]] :: byte list list"
  have "length (take 17 (drop (nat (pos b)) (buf b))) = 17" using assms(3) by simp
  then have e: "pos b + 16 < 512" using assms(1,2) by (simp add: wf_buffer_def min_def split: if_splits)
  have ok: "labels_ok ?ls" by (simp add: labels_ok_def)
  have enc: "encode_labels ?ls @ [0] =
      [3, 0x77, 0x77, 0x77, 7, 0x65, 0x78, 0x61, 0x6D, 0x70, 0x6C, 0x65, 3, 0x63, 0x6F, 0x6D, 0]"
    by simp
  have len: "length (encode_labels ?ls) = 16" by simp
  have bytes: "take (length (encode_labels ?ls) + 1) (drop (nat (pos b)) (buf b)) =
      encode_labels ?ls @ [0]"
    by (simp only: len enc) (simp add: assms(3))
  have e': "pos b + int (length (encode_labels ?ls)) < 512"
    by (simp only: len) (use e in simp)
  have "Read_qname b [] =
           Some (Inr (), b\<lparr>pos := pos b + int (length (encode_labels ?ls)) + 1\<rparr>,
                 if ?ls = [] then [] else [] @ dotted ?ls)"
    by (rule Read_qname_uncompressed [OF ok assms(2) bytes e'])
  then show ?thesis by (simp only: len www_example_com_text) simp
qed

text \<open>The name behind a header of twelve bytes, with the cursor at 12.\<close>

theorem Read_qname_www_example_com_witness:
  "Read_qname ((load_buffer (replicate 12 0 @
      [3, 0x77, 0x77, 0x77, 7, 0x65, 0x78, 0x61, 0x6D, 0x70, 0x6C, 0x65, 3, 0x63, 0x6F, 0x6D, 0]))\<lparr>pos := 12\<rparr>) [] =
   Some (Inr (), (load_buffer (replicate 12 0 @
      [3, 0x77, 0x77, 0x77, 7, 0x65, 0x78, 0x61, 0x6D, 0x70, 0x6C, 0x65, 3, 0x63, 0x6F, 0x6D, 0]))\<lparr>pos := 29\<rparr>,
      ''www.example.com'')"
  using Read_qname_www_example_com [of "(load_buffer (replicate 12 0 @
      [3, 0x77, 0x77, 0x77, 7, 0x65, 0x78, 0x61, 0x6D, 0x70, 0x6C, 0x65, 3, 0x63, 0x6F, 0x6D, 0]))\<lparr>pos := 12\<rparr>"]
  by (simp add: wf_buffer_def load_buffer_def copy_bytes_def NewBytePacketBuffer_def)

section \<open>Resource records\<close>

lemma ReadU16_Inr: "ReadU16 b = (Inr v, b') \<Longrightarrow> b' = b\<lparr>pos := pos b + 2\<rparr>"
  using ReadU16_cases [of b] by auto

lemma ReadU32_Inr: "ReadU32 b = (Inr v, b') \<Longrightarrow> b' = b\<lparr>pos := pos b + 4\<rparr>"
  using ReadU32_cases [of b] by auto

lemma DnsRecord_payload_type:
  assumes "DnsRecord_payload rec b = Some (Inr rec', b')"
  shows "RQtype rec' = RQtype rec"
  using assms
  by (auto simp: DnsRecord_payload_def split: if_splits prod.splits sum.splits option.splits)

lemma DnsRecord_payload_other:
  assumes "RQtype rec \<notin> {QTYPE_A, QTYPE_AAAA, QTYPE_CNAME, QTYPE_MX}"
  shows "DnsRecord_payload rec b = Some (Inr rec, b)"
  using assms by (simp add: DnsRecord_payload_def)

lemma DnsRecord_prefix_Inr:
  assumes "DnsRecord_prefix b = Some (Inr rec, b1)"
  shows "Addr rec = [] \<and> Host rec = [] \<and> Priority rec = 0 \<and>
         (\<exists>bn. Read_qname b [] = Some (Inr (), bn, RName rec) \<and> pos b1 = pos bn + 10)"
proof -
  from assms obtain bn out where q: "Read_qname b [] = Some (Inr (), bn, out)"
    by (auto simp: DnsRecord_prefix_def zero_DnsRecord_def
        split: option.splits prod.splits sum.splits)
  with assms obtain t b2 where r1: "ReadU16 bn = (Inr t, b2)"
    by (auto simp: DnsRecord_prefix_def zero_DnsRecord_def ReadU16_Query_eq
        split: option.splits prod.splits sum.splits)
  with q assms obtain c b3 where r2: "ReadU16 b2 = (Inr c, b3)"
    by (auto simp: DnsRecord_prefix_def zero_DnsRecord_def ReadU16_Query_eq
        split: option.splits prod.splits sum.splits)
  with q r1 assms obtain ttl b4 where r3: "ReadU32 b3 = (Inr ttl, b4)"
    by (auto simp: DnsRecord_prefix_def zero_DnsRecord_def ReadU16_Query_eq
        split: option.splits prod.splits sum.splits)
  with q r1 r2 assms obtain dl where r4: "ReadU16 b4 = (Inr dl, b1)"
    and rec: "rec = zero_DnsRecord\<lparr>RName := out, RQtype := t, Class := c, TTL := ttl, DataLen := dl\<rparr>"
    by (auto simp: DnsRecord_prefix_def zero_DnsRecord_def ReadU16_Query_eq
        split: option.splits prod.splits sum.splits)
  have "pos b1 = pos bn + 10"
    using ReadU16_Inr [OF r1] ReadU16_Inr [OF r2] ReadU32_Inr [OF r3] ReadU16_Inr [OF r4]
    by simp
  with q rec show ?thesis by (auto simp: zero_DnsRecord_def)
qed

text \<open>
  C7. When \<^verbatim>\<open>DnsRecordRead\<close> returns a record whose type is none of A, AAAA, CNAME and
  MX, the record and the buffer are the ones the common reads left: the cursor is ten
  bytes (type, class, TTL, data length) behind the end of the name, nothing of the data
  is consumed, and the address, the host and the priority are empty, empty and 0.
\<close>

theorem DnsRecordRead_other_type:
  assumes "DnsRecordRead b = Some (Inr rec, b')"
    and "RQtype rec \<notin> {QTYPE_A, QTYPE_AAAA, QTYPE_CNAME, QTYPE_MX}"
  shows "DnsRecord_prefix b = Some (Inr rec, b') \<and>
         (\<exists>bn. Read_qname b [] = Some (Inr (), bn, RName rec) \<and> pos b' = pos bn + 10) \<and>
         Addr rec = [] \<and> Host rec = [] \<and> Priority rec = 0"
proof -
  from assms(1) obtain rec0 b1 where pre: "DnsRecord_prefix b = Some (Inr rec0, b1)"
    and pay: "DnsRecord_payload rec0 b1 = Some (Inr rec, b')"
    by (auto simp: DnsRecordRead_def split: option.splits prod.splits sum.splits)
  from DnsRecord_payload_type [OF pay] assms(2)
  have "RQtype rec0 \<notin> {QTYPE_A, QTYPE_AAAA, QTYPE_CNAME, QTYPE_MX}" by simp
  from DnsRecord_payload_other [OF this, of b1] pay have "rec = rec0" "b' = b1" by simp_all
  with pre DnsRecord_prefix_Inr [OF pre] show ?thesis by simp
qed

text \<open>
  An NS record (type 2) for the name \<open>a\<close>, with four bytes of data: the cursor stays at
  13, in front of the data.
\<close>

lemma ns_record_read:
  "DnsRecordRead (load_buffer [1, 0x61, 0, 0, 2, 0, 1, 0, 0, 0, 0x3C, 0, 4, 0xC0, 0x0C, 0xC0, 0x0C]) =
     Some (Inr \<lparr>RName = ''a'', RQtype = 2, Class = 1, TTL = 60, DataLen = 4, Addr = [],
                Host = [], Priority = 0\<rparr>,
           (load_buffer [1, 0x61, 0, 0, 2, 0, 1, 0, 0, 0, 0x3C, 0, 4, 0xC0, 0x0C, 0xC0, 0x0C])\<lparr>pos := 13\<rparr>)"
  by code_simp


theorem DnsRecordRead_other_type_witness:
  "DnsRecord_prefix (load_buffer [1, 0x61, 0, 0, 2, 0, 1, 0, 0, 0, 0x3C, 0, 4, 0xC0, 0x0C, 0xC0, 0x0C]) =
     Some (Inr \<lparr>RName = ''a'', RQtype = 2, Class = 1, TTL = 60, DataLen = 4, Addr = [],
                Host = [], Priority = 0\<rparr>,
           (load_buffer [1, 0x61, 0, 0, 2, 0, 1, 0, 0, 0, 0x3C, 0, 4, 0xC0, 0x0C, 0xC0, 0x0C])\<lparr>pos := 13\<rparr>)"
  using DnsRecordRead_other_type [OF ns_record_read]
  by (simp add: QTYPE_A_def QTYPE_AAAA_def QTYPE_CNAME_def QTYPE_MX_def)

section \<open>More questions declared than encoded\<close>

text \<open>
  C8 as stated fails. The packet is a header that declares two questions, then the one
  question \<open>www.example.com\<close>, type 1, class 1: 33 bytes. \<^verbatim>\<open>main\<close> copies them into the
  buffer of 512 zero bytes, so the second question is decoded from the zeros behind the
  first: no error, and a second question with an empty name, type 0 and class 0.
\<close>

theorem main_decode_fabricates_second_question:
  "main_decode [0x12, 0x34, 0x01, 0x00, 0, 2, 0, 0, 0, 0, 0, 0,
                3, 0x77, 0x77, 0x77, 7, 0x65, 0x78, 0x61, 0x6D, 0x70, 0x6C, 0x65, 3, 0x63, 0x6F, 0x6D, 0,
                0, 1, 0, 1] =
     Some (Inr (NewDnsHeader\<lparr>ID := 0x1234, RecursionDesired := True, Questions := 2\<rparr>,
                [\<lparr>Name = ''www.example.com'', Qtype = 1, Qclass = 1\<rparr>,
                 \<lparr>Name = [], Qtype = 0, Qclass = 0\<rparr>],
                []))"
  by code_simp

lemma DnsQuestion_Read_past_end:
  assumes "512 \<le> pos b"
  shows "DnsQuestion_Read q b = Some (Inl BufferOverrun, q, b)"
proof -
  let ?s0 = "\<lparr>qbuf = b, qpos = Pos b, delim = [], jumped = False, jumpsPerformed = 0,
              outstr = Name q\<rparr>"
  have "qname_body ?s0 = Return BufferOverrun ?s0"
    using assms by (simp add: qname_body_def maxJumps_def Get_def)
  then have "qname_loop ?s0 = Some (Inl BufferOverrun, ?s0)"
    by (subst qname_loop.simps) simp
  then show ?thesis by (simp add: DnsQuestion_Read_def Read_qname_def)
qed

lemma DnsQuestion_Read_zeros:
  assumes wf: "wf_buffer b" and p: "0 \<le> pos b"
    and z: "take 5 (drop (nat (pos b)) (buf b)) = replicate 5 0"
  shows "DnsQuestion_Read q b = Some (Inr (), q\<lparr>Qtype := 0, Qclass := 0\<rparr>, b\<lparr>pos := pos b + 5\<rparr>)"
proof -
  have "length (take 5 (drop (nat (pos b)) (buf b))) = 5" using z by simp
  then have e: "pos b + 5 \<le> 512" using wf p by (simp add: wf_buffer_def min_def split: if_splits)
  have nth: "buf b ! (nat (pos b) + i) = 0" if "i < 5" for i
  proof -
    have "take 5 (drop (nat (pos b)) (buf b)) ! i = replicate 5 0 ! i" using z by simp
    then show ?thesis using that e p wf by (simp add: wf_buffer_def)
  qed
  have "take (length (encode_labels []) + 1) (drop (nat (pos b)) (buf b)) = encode_labels [] @ [0]"
  proof -
    have "take 1 (take 5 (drop (nat (pos b)) (buf b))) = take 1 (replicate 5 0)" using z by simp
    then show ?thesis by simp
  qed
  then have n: "Read_qname b (Name q) = Some (Inr (), b\<lparr>pos := pos b + 1\<rparr>, Name q)"
    using Read_qname_uncompressed [of "[]" b "Name q"] p e by (simp add: labels_ok_def)
  have k1: "buf b ! nat (pos b + k) = 0" if "0 \<le> k" "k < 5" for k
    using nth [of "nat k"] p that by (simp add: nat_add_distrib)
  have k2: "buf b ! nat (k + pos b) = 0" if "0 \<le> k" "k < 5" for k
    using k1 [OF that] by (simp add: add.commute)
  have r1: "ReadU16 (b\<lparr>pos := pos b + 1\<rparr>) = (Inr 0, b\<lparr>pos := pos b + 3\<rparr>)"
    using ReadU16_cases [of "b\<lparr>pos := pos b + 1\<rparr>"] p e
    by (auto simp: k1 k2)
  have r2: "ReadU16 (b\<lparr>pos := pos b + 3\<rparr>) = (Inr 0, b\<lparr>pos := pos b + 5\<rparr>)"
    using ReadU16_cases [of "b\<lparr>pos := pos b + 3\<rparr>"] p e
    by (auto simp: k1 k2)
  show ?thesis by (simp add: DnsQuestion_Read_def n r1 r2)
qed

text \<open>
  A question that starts on a zero octet with fewer than five bytes of the buffer left:
  the empty name is read, and one of the two 16-bit reads runs into the end.
\<close>

lemma Read_qname_zero_octet:
  assumes "0 \<le> pos b" and "pos b < 512" and "buf b ! nat (pos b) = 0"
  shows "Read_qname b out = Some (Inr (), b\<lparr>pos := pos b + 1\<rparr>, out)"
proof -
  let ?s0 = "\<lparr>qbuf = b, qpos = Pos b, delim = [], jumped = False, jumpsPerformed = 0,
              outstr = out\<rparr>"
  have "qname_body ?s0 = Break (?s0\<lparr>qpos := qpos ?s0 + 1\<rparr>)"
    by (rule qname_body_zero) (use assms in \<open>simp_all add: Pos_def\<close>)
  then have "qname_loop ?s0 = Some (Inr (), ?s0\<lparr>qpos := qpos ?s0 + 1\<rparr>)"
    by (subst qname_loop.simps) simp
  then show ?thesis by (simp add: Read_qname_def Seek_def Pos_def)
qed

lemma DnsQuestion_Read_near_end:
  assumes "508 \<le> pos b" and "pos b < 512" and "buf b ! nat (pos b) = 0"
  shows "\<exists>q'. DnsQuestion_Read q b = Some (Inl BufferOverrun, q', b\<lparr>pos := 512\<rparr>)"
proof -
  have n: "Read_qname b (Name q) = Some (Inr (), b\<lparr>pos := pos b + 1\<rparr>, Name q)"
    by (rule Read_qname_zero_octet) (use assms in simp_all)
  from assms(1,2) consider "pos b = 508" | "pos b = 509" | "pos b = 510" | "pos b = 511"
    by linarith
  then show ?thesis
  proof cases
    case 1
    have r1: "\<exists>v. ReadU16 (b\<lparr>pos := 509\<rparr>) = (Inr v, b\<lparr>pos := 511\<rparr>)"
      using ReadU16_cases [of "b\<lparr>pos := 509\<rparr>"] by simp
    have r2: "ReadU16 (b\<lparr>pos := 511\<rparr>) = (Inl BufferOverrun, b\<lparr>pos := 512\<rparr>)"
      using ReadU16_cases [of "b\<lparr>pos := 511\<rparr>"] by simp
    from r1 r2 show ?thesis using n 1 by (auto simp: DnsQuestion_Read_def)
  next
    case 2
    have r1: "\<exists>v. ReadU16 (b\<lparr>pos := 510\<rparr>) = (Inr v, b\<lparr>pos := 512\<rparr>)"
      using ReadU16_cases [of "b\<lparr>pos := 510\<rparr>"] by simp
    have r2: "ReadU16 (b\<lparr>pos := 512\<rparr>) = (Inl BufferOverrun, b\<lparr>pos := 512\<rparr>)"
      using ReadU16_cases [of "b\<lparr>pos := 512\<rparr>"] by simp
    from r1 r2 show ?thesis using n 2 by (auto simp: DnsQuestion_Read_def)
  next
    case 3
    have r1: "ReadU16 (b\<lparr>pos := 511\<rparr>) = (Inl BufferOverrun, b\<lparr>pos := 512\<rparr>)"
      using ReadU16_cases [of "b\<lparr>pos := 511\<rparr>"] by simp
    from r1 show ?thesis using n 3 by (auto simp: DnsQuestion_Read_def)
  next
    case 4
    have r1: "ReadU16 (b\<lparr>pos := 512\<rparr>) = (Inl BufferOverrun, b\<lparr>pos := 512\<rparr>)"
      using ReadU16_cases [of "b\<lparr>pos := 512\<rparr>"] by simp
    from r1 show ?thesis using n 4 by (auto simp: DnsQuestion_Read_def)
  qed
qed

text \<open>
  C8, amended. The question loop of \<^verbatim>\<open>main\<close> with a count of 2, after a first question
  that decodes and leaves the cursor at \<open>pos b1\<close>. When fewer than five bytes of the
  buffer are left behind the first question, the loop fails with \<open>BufferOverrun\<close>: with
  the cursor at 512, and with the cursor at 508 to 511 and a zero byte under it, as the
  padding of a packet of 508 to 511 bytes gives; the cursor is left at 512. When five
  zero bytes follow the first question, as the padding of a shorter packet gives, the
  loop succeeds and its second question is the empty one.
\<close>

theorem two_questions_declared_one_encoded:
  assumes "DnsQuestion_Read zero_DnsQuestion b = Some (Inr (), q1, b1)"
  shows "(512 \<le> pos b1 \<longrightarrow> read_questions 2 b = Some (Inl BufferOverrun, b1)) \<and>
         (508 \<le> pos b1 \<and> pos b1 < 512 \<and> buf b1 ! nat (pos b1) = 0 \<longrightarrow>
            read_questions 2 b = Some (Inl BufferOverrun, b1\<lparr>pos := 512\<rparr>)) \<and>
         (wf_buffer b1 \<and> 0 \<le> pos b1 \<and> take 5 (drop (nat (pos b1)) (buf b1)) = replicate 5 0 \<longrightarrow>
            read_questions 2 b = Some (Inr [q1, zero_DnsQuestion], b1\<lparr>pos := pos b1 + 5\<rparr>))"
proof -
  have two: "read_questions 2 b =
      (case DnsQuestion_Read zero_DnsQuestion b1 of
         None \<Rightarrow> None
       | Some (Inl e, q, b2) \<Rightarrow> Some (Inl e, b2)
       | Some (Inr u, q, b2) \<Rightarrow> Some (Inr [q1, q], b2))"
    using assms by (simp add: numeral_2_eq_2 split: option.splits prod.splits sum.splits)
  show ?thesis
  proof (intro conjI impI)
    assume "512 \<le> pos b1"
    from DnsQuestion_Read_past_end [OF this, of zero_DnsQuestion]
    show "read_questions 2 b = Some (Inl BufferOverrun, b1)" by (simp add: two)
  next
    assume a: "508 \<le> pos b1 \<and> pos b1 < 512 \<and> buf b1 ! nat (pos b1) = 0"
    then obtain q' where
      "DnsQuestion_Read zero_DnsQuestion b1 = Some (Inl BufferOverrun, q', b1\<lparr>pos := 512\<rparr>)"
      using DnsQuestion_Read_near_end [of b1 zero_DnsQuestion] by blast
    then show "read_questions 2 b = Some (Inl BufferOverrun, b1\<lparr>pos := 512\<rparr>)"
      by (simp add: two)
  next
    assume a: "wf_buffer b1 \<and> 0 \<le> pos b1 \<and> take 5 (drop (nat (pos b1)) (buf b1)) = replicate 5 0"
    then have "DnsQuestion_Read zero_DnsQuestion b1 =
        Some (Inr (), zero_DnsQuestion\<lparr>Qtype := 0, Qclass := 0\<rparr>, b1\<lparr>pos := pos b1 + 5\<rparr>)"
      by (intro DnsQuestion_Read_zeros) simp_all
    then show "read_questions 2 b = Some (Inr [q1, zero_DnsQuestion], b1\<lparr>pos := pos b1 + 5\<rparr>)"
      by (simp add: two zero_DnsQuestion_def)
  qed
qed

text \<open>
  A question that ends at byte 511, one that ends at byte 508, and the same question at
  the start of a short packet.
\<close>

lemma question_at_end:
  "DnsQuestion_Read zero_DnsQuestion
     ((load_buffer (replicate 505 0 @ [1, 0x61, 0, 0, 1, 0, 1]))\<lparr>pos := 505\<rparr>) =
   Some (Inr (), \<lparr>Name = ''a'', Qtype = 1, Qclass = 1\<rparr>,
         (load_buffer (replicate 505 0 @ [1, 0x61, 0, 0, 1, 0, 1]))\<lparr>pos := 512\<rparr>)"
  by code_simp

lemma question_then_padding:
  "DnsQuestion_Read zero_DnsQuestion (load_buffer [1, 0x61, 0, 0, 1, 0, 1]) =
   Some (Inr (), \<lparr>Name = ''a'', Qtype = 1, Qclass = 1\<rparr>,
         (load_buffer [1, 0x61, 0, 0, 1, 0, 1])\<lparr>pos := 7\<rparr>)"
  by code_simp

lemma question_near_end:
  "DnsQuestion_Read zero_DnsQuestion
     ((load_buffer (replicate 502 0 @ [1, 0x61, 0, 0, 1, 0, 1]))\<lparr>pos := 502\<rparr>) =
   Some (Inr (), \<lparr>Name = ''a'', Qtype = 1, Qclass = 1\<rparr>,
         (load_buffer (replicate 502 0 @ [1, 0x61, 0, 0, 1, 0, 1]))\<lparr>pos := 509\<rparr>)"
  by code_simp

theorem two_questions_declared_one_encoded_witness:
  "read_questions 2 ((load_buffer (replicate 505 0 @ [1, 0x61, 0, 0, 1, 0, 1]))\<lparr>pos := 505\<rparr>) =
     Some (Inl BufferOverrun, (load_buffer (replicate 505 0 @ [1, 0x61, 0, 0, 1, 0, 1]))\<lparr>pos := 512\<rparr>) \<and>
   read_questions 2 ((load_buffer (replicate 502 0 @ [1, 0x61, 0, 0, 1, 0, 1]))\<lparr>pos := 502\<rparr>) =
     Some (Inl BufferOverrun, (load_buffer (replicate 502 0 @ [1, 0x61, 0, 0, 1, 0, 1]))\<lparr>pos := 512\<rparr>) \<and>
   read_questions 2 (load_buffer [1, 0x61, 0, 0, 1, 0, 1]) =
     Some (Inr [\<lparr>Name = ''a'', Qtype = 1, Qclass = 1\<rparr>, zero_DnsQuestion],
           (load_buffer [1, 0x61, 0, 0, 1, 0, 1])\<lparr>pos := 12\<rparr>)"
  using two_questions_declared_one_encoded [OF question_at_end]
    two_questions_declared_one_encoded [OF question_near_end]
    two_questions_declared_one_encoded [OF question_then_padding]
  by (simp add: wf_buffer_def load_buffer_def copy_bytes_def NewBytePacketBuffer_def nth_append)

section \<open>Compression pointers\<close>













lemma qname_loop_Continue: "qname_body s = Continue s' \<Longrightarrow> qname_loop s = qname_loop s'"
  by (subst qname_loop.simps) simp

lemma qname_loop_Return: "qname_body s = Return e s' \<Longrightarrow> qname_loop s = Some (Inl e, s')"
  by (subst qname_loop.simps) simp

lemma qname_loop_Break: "qname_body s = Break s' \<Longrightarrow> qname_loop s = Some (Inr (), s')"
  by (subst qname_loop.simps) simp

lemma Read_qname_loop:
  assumes "qname_loop \<lparr>qbuf = b, qpos = Pos b, delim = [], jumped = False,
                       jumpsPerformed = 0, outstr = out\<rparr> = Some (r, s')"
  shows "Read_qname b out =
           Some (r, if r = Inr () \<and> \<not> jumped s' then (qbuf s')\<lparr>pos := qpos s'\<rparr> else qbuf s',
                 outstr s')"
  using assms by (cases r) (simp_all add: Read_qname_def Seek_def)







section \<open>The limit of five jumps\<close>

lemma pointer_chain_cursor: "pointer_chain (b\<lparr>pos := c\<rparr>) p n = pointer_chain b p n"
  by (induction n arbitrary: p) simp_all

lemma qname_loop_chain:
  assumes "pointer_chain (qbuf s) (qpos s) n = Some t" and "jumpsPerformed s + int n \<le> 6"
    and "pos (qbuf s) < 512" and "jumped s"
  shows "qname_loop s =
           qname_loop (s\<lparr>qpos := t, jumped := True, jumpsPerformed := jumpsPerformed s + int n\<rparr>)"
  using assms
proof (induction n arbitrary: s)
  case 0
  then have "s\<lparr>qpos := t, jumped := True, jumpsPerformed := jumpsPerformed s + int 0\<rparr> = s"
    by (intro qname_state.equality) simp_all
  then show ?case by simp
next
  case (Suc n)
  let ?len = "buf (qbuf s) ! nat (qpos s)"
  let ?off = "buf (qbuf s) ! nat (qpos s + 1)"
  let ?s1 = "s\<lparr>qbuf := (if jumped s then qbuf s else (qbuf s)\<lparr>pos := qpos s + 2\<rparr>),
               qpos := pointer_offset ?len ?off, jumped := True,
               jumpsPerformed := jumpsPerformed s + 1\<rparr>"
  from Suc.prems(1) have p: "0 \<le> qpos s" "qpos s + 1 < 512" "?len AND 0xC0 = 0xC0"
    and ch: "pointer_chain (qbuf s) (pointer_offset ?len ?off) n = Some t"
    by (simp_all split: if_splits)
  have j: "jumpsPerformed s \<le> 5" using Suc.prems(2) by simp
  have body: "qname_body s = Continue ?s1"
    by (rule qname_body_pointer [OF j Suc.prems(3) p(1,2) refl p(3) refl]) (simp add: Suc.prems(4))
  have "qname_loop ?s1 =
          qname_loop (?s1\<lparr>qpos := t, jumped := True, jumpsPerformed := jumpsPerformed ?s1 + int n\<rparr>)"
    by (rule Suc.IH) (use ch Suc.prems in simp_all)
  with qname_loop_Continue [OF body] show ?case
    using Suc.prems(4) by (simp add: add.assoc add.commute add.left_commute)
qed

lemma qname_loop_first_pointer:
  assumes "pointer_chain b (pos b) (Suc n) = Some t" and "pos b + 2 < 512" and "int n \<le> 5"
  shows "qname_loop \<lparr>qbuf = b, qpos = Pos b, delim = [], jumped = False,
                       jumpsPerformed = 0, outstr = out\<rparr> =
         qname_loop \<lparr>qbuf = b\<lparr>pos := pos b + 2\<rparr>, qpos = t, delim = [], jumped = True,
                       jumpsPerformed = 1 + int n, outstr = out\<rparr>"
proof -
  let ?s0 = "\<lparr>qbuf = b, qpos = Pos b, delim = [], jumped = False,
                       jumpsPerformed = 0, outstr = out\<rparr>"
  let ?len = "buf b ! nat (pos b)"
  let ?off = "buf b ! nat (pos b + 1)"
  let ?s1 = "\<lparr>qbuf = b\<lparr>pos := pos b + 2\<rparr>, qpos = pointer_offset ?len ?off, delim = [],
               jumped = True, jumpsPerformed = 1, outstr = out\<rparr>"
  from assms(1) have p: "0 \<le> pos b" "pos b + 1 < 512" "?len AND 0xC0 = 0xC0"
    and ch: "pointer_chain b (pointer_offset ?len ?off) n = Some t"
    by (simp_all split: if_splits)
  have "qname_body ?s0 = Continue ?s1"
    using qname_body_pointer [of ?s0 ?len ?off] p assms(2) by (simp add: Pos_def)
  from qname_loop_Continue [OF this]
  have 1: "qname_loop ?s0 = qname_loop ?s1" .
  have "qname_loop ?s1 =
      qname_loop (?s1\<lparr>qpos := t, jumped := True, jumpsPerformed := jumpsPerformed ?s1 + int n\<rparr>)"
    by (rule qname_loop_chain) (use ch assms(2,3) in \<open>simp_all add: pointer_chain_cursor\<close>)
  with 1 show ?thesis by simp
qed

text \<open>
  The limit itself: with the first pointer at index 509 or below, a chain of six pointers
  ends in \<open>CompressionLoopLimit\<close>, whatever the sixth points to, and a chain of five that
  ends at a name without pointers decodes that name. In both the cursor is left two bytes
  past the first pointer.
\<close>

lemma six_pointers_fail:
  assumes "pointer_chain b (pos b) 6 = Some t" and "pos b + 2 < 512"
  shows "Read_qname b out = Some (Inl CompressionLoopLimit, b\<lparr>pos := pos b + 2\<rparr>, out)"
proof -
  let ?s6 = "\<lparr>qbuf = b\<lparr>pos := pos b + 2\<rparr>, qpos = t, delim = [], jumped = True,
                       jumpsPerformed = 1 + int 5, outstr = out\<rparr>"
  have "pointer_chain b (pos b) (Suc 5) = Some t" using assms(1) by (simp add: eval_nat_numeral)
  from qname_loop_first_pointer [OF this assms(2), of out]
  have 1: "qname_loop \<lparr>qbuf = b, qpos = Pos b, delim = [], jumped = False,
                       jumpsPerformed = 0, outstr = out\<rparr> = qname_loop ?s6" by simp
  have "qname_body ?s6 = Return CompressionLoopLimit ?s6"
    by (simp add: qname_body_def maxJumps_def)
  from qname_loop_Return [OF this] 1 Read_qname_loop [of b out "Inl CompressionLoopLimit" ?s6]
  show ?thesis by simp
qed

lemma qname_loop_name:
  assumes ok: "labels_ok ls" and j: "jumpsPerformed s \<le> 5" and c: "pos (qbuf s) < 512"
    and p: "0 \<le> qpos s"
    and bytes: "take (length (encode_labels ls) + 1) (drop (nat (qpos s)) (buf (qbuf s))) =
                  encode_labels ls @ [0]"
    and e: "qpos s + int (length (encode_labels ls)) < 512"
  shows "qname_loop s =
           Some (Inr (), s\<lparr>qpos := qpos s + int (length (encode_labels ls)) + 1,
                            outstr := (if ls = [] then outstr s else outstr s @ delim s @ dotted ls),
                            delim := (if ls = [] then delim s else ''.'')\<rparr>)"
proof -
  let ?n = "length (encode_labels ls)"
  let ?s1 = "s\<lparr>qpos := qpos s + int ?n,
               outstr := (if ls = [] then outstr s else outstr s @ delim s @ dotted ls),
               delim := (if ls = [] then delim s else ''.'')\<rparr>"
  from take_drop_append [OF bytes]
  have b1: "take ?n (drop (nat (qpos s)) (buf (qbuf s))) = encode_labels ls"
    and b2: "take (Suc 0) (drop (nat (qpos s) + ?n) (buf (qbuf s))) = [0]" by simp_all
  from take_drop_Cons [OF b2] have z: "buf (qbuf s) ! (nat (qpos s) + ?n) = 0" by simp
  have walk: "qname_loop s = qname_loop ?s1"
    by (rule qname_loop_labels [OF ok j c p b1 e])
  have "nat (qpos s + int ?n) = nat (qpos s) + ?n" using p by (simp add: nat_add_distrib)
  then have "qname_body ?s1 = Break (?s1\<lparr>qpos := qpos ?s1 + 1\<rparr>)"
    using p e c z j by (intro qname_body_zero) simp_all
  from qname_loop_Break [OF this] walk show ?thesis by simp
qed

lemma five_pointers_succeed:
  assumes "pointer_chain b (pos b) 5 = Some t" and "pos b + 2 < 512"
    and "labels_ok ls" and "0 \<le> t"
    and "take (length (encode_labels ls) + 1) (drop (nat t) (buf b)) = encode_labels ls @ [0]"
    and "t + int (length (encode_labels ls)) < 512"
  shows "Read_qname b out =
           Some (Inr (), b\<lparr>pos := pos b + 2\<rparr>, if ls = [] then out else out @ dotted ls)"
proof -
  let ?s5 = "\<lparr>qbuf = b\<lparr>pos := pos b + 2\<rparr>, qpos = t, delim = [], jumped = True,
                       jumpsPerformed = 1 + int 4, outstr = out\<rparr>"
  have "pointer_chain b (pos b) (Suc 4) = Some t" using assms(1) by (simp add: eval_nat_numeral)
  from qname_loop_first_pointer [OF this assms(2), of out]
  have 1: "qname_loop \<lparr>qbuf = b, qpos = Pos b, delim = [], jumped = False,
                       jumpsPerformed = 0, outstr = out\<rparr> = qname_loop ?s5" by simp
  have "qname_loop ?s5 =
           Some (Inr (), ?s5\<lparr>qpos := qpos ?s5 + int (length (encode_labels ls)) + 1,
                            outstr := (if ls = [] then outstr ?s5 else outstr ?s5 @ delim ?s5 @ dotted ls),
                            delim := (if ls = [] then delim ?s5 else ''.'')\<rparr>)"
    by (rule qname_loop_name [OF assms(3)]) (use assms in simp_all)
  with 1 Read_qname_loop [of b out "Inr ()"] show ?thesis by simp
qed

text \<open>
  C4. The claim fails when the first pointer of the chain occupies the last two bytes of
  the buffer. Here five pointers lead from 510 over 0, 2, 4 and 6 to offset 8, where the
  name \<open>com\<close> stands and decodes when read directly. Decoding at 510 moves the cursor to
  512 before it reads the pointer's second octet, and \<^verbatim>\<open>Get(511)\<close> then fails on its test
  of the cursor: the result is \<open>BufferOverrun\<close>, not the name.
\<close>

theorem pointer_at_end_of_buffer_fails:
  "pointer_chain (load_buffer ([0xC0, 2, 0xC0, 4, 0xC0, 6, 0xC0, 8, 3, 0x63, 0x6F, 0x6D, 0]
                    @ replicate 497 0 @ [0xC0, 0])) 510 5 = Some 8 \<and>
   Read_qname ((load_buffer ([0xC0, 2, 0xC0, 4, 0xC0, 6, 0xC0, 8, 3, 0x63, 0x6F, 0x6D, 0]
                    @ replicate 497 0 @ [0xC0, 0]))\<lparr>pos := 510\<rparr>) [] =
     Some (Inl BufferOverrun,
           (load_buffer ([0xC0, 2, 0xC0, 4, 0xC0, 6, 0xC0, 8, 3, 0x63, 0x6F, 0x6D, 0]
                    @ replicate 497 0 @ [0xC0, 0]))\<lparr>pos := 512\<rparr>, []) \<and>
   Read_qname ((load_buffer ([0xC0, 2, 0xC0, 4, 0xC0, 6, 0xC0, 8, 3, 0x63, 0x6F, 0x6D, 0]
                    @ replicate 497 0 @ [0xC0, 0]))\<lparr>pos := 8\<rparr>) [] =
     Some (Inr (),
           (load_buffer ([0xC0, 2, 0xC0, 4, 0xC0, 6, 0xC0, 8, 3, 0x63, 0x6F, 0x6D, 0]
                    @ replicate 497 0 @ [0xC0, 0]))\<lparr>pos := 13\<rparr>, ''com'')"
  by code_simp

end
